theory Spec2Isabelle
  imports Main "HOL-Library.Word"
begin

section \<open>Python values shared by both scripts\<close>

text \<open>
  A Python \<open>str\<close> is modelled as a \<open>string\<close>; a \<open>char\<close> stands for a code point
  below 256. An exception is a value of \<open>exn\<close>, and a function that may raise returns
  \<open>exn + 'a\<close> with \<open>Inl\<close> for the raise.
\<close>

datatype exn =
    ValueError string
  | RequestException
  | KeyError string
  | TypeError
  | AttributeError
  | JSONDecodeError
  | OSError
  | LDAPException
  | ParsingError
  | InterpolationSyntaxError
  | Exception string

text \<open>The code points below 256 for which \<open>str.isspace\<close> holds; \<open>str.strip()\<close> removes them.\<close>

definition whitespace :: "char list" where
  "whitespace = [CHR 0x09, CHR 0x0A, CHR 0x0B, CHR 0x0C, CHR 0x0D,
                 CHR 0x1C, CHR 0x1D, CHR 0x1E, CHR 0x1F, CHR 0x20, CHR 0x85, CHR 0xA0]"

definition isspace :: "char \<Rightarrow> bool" where
  "isspace c = (c \<in> set whitespace)"

text \<open>\<open>s.strip()\<close>\<close>

definition py_strip :: "string \<Rightarrow> string" where
  "py_strip s = rev (dropWhile isspace (rev (dropWhile isspace s)))"

text \<open>\<open>s.split(sep, 1)\<close>: one element when \<open>sep\<close> does not occur, two otherwise.\<close>

definition split1 :: "char \<Rightarrow> string \<Rightarrow> string list" where
  "split1 sep s =
     (if sep \<in> set s
      then [takeWhile (\<lambda>c. c \<noteq> sep) s, tl (dropWhile (\<lambda>c. c \<noteq> sep) s)]
      else [s])"

text \<open>\<open>s.split(sep)\<close> for a one-character separator: never the empty list.\<close>

fun py_split :: "char \<Rightarrow> string \<Rightarrow> string list" where
  "py_split sep [] = [[]]"
| "py_split sep (c # cs) =
     (if c = sep then [] # py_split sep cs
      else (case py_split sep cs of
              w # ws \<Rightarrow> (c # w) # ws
            | [] \<Rightarrow> [[c]]))"

text \<open>\<open>a or b\<close> on two strings: the empty string is falsy.\<close>

definition str_or :: "string \<Rightarrow> string \<Rightarrow> string" where
  "str_or a b = (if a \<noteq> [] then a else b)"

text \<open>\<open>s.startswith(p)\<close>\<close>

definition startswith :: "string \<Rightarrow> string \<Rightarrow> bool" where
  "startswith s p = (take (length p) s = p)"

section \<open>Directory-to-lookup sync: \<open>parse_ad_user\<close>\<close>

definition backslash :: char where
  "backslash = CHR 0x5C"

text \<open>
  \<open>parse_ad_user(ad_user, ad_domain)\<close>. The tuple unpacking of the two \<open>split\<close> results
  raises \<open>ValueError\<close> in Python when the list has not two elements; the model keeps
  that branch.
\<close>

definition unpack_error :: exn where
  "unpack_error = ValueError ''not enough values to unpack (expected 2, got 1)''"

definition parse_ad_user :: "string \<Rightarrow> string \<Rightarrow> exn + (string \<times> string)" where
  "parse_ad_user ad_user0 ad_domain =
     (if ad_user0 = [] then
        Inl (ValueError ''AD user must be specified in config or arguments'')
      else
        let ad_user = py_strip ad_user0 in
        if CHR ''@'' \<in> set ad_user then
          (case split1 CHR ''@'' ad_user of
             [username, user_domain] \<Rightarrow>
               if username = [] then
                 Inl (ValueError (''Invalid AD user format: '' @ ad_user @
                                  ''. Username cannot be empty.''))
               else Inr (username, str_or user_domain ad_domain)
           | _ \<Rightarrow> Inl unpack_error)
        else if backslash \<in> set ad_user \<or> CHR ''/'' \<in> set ad_user then
          (let separator = (if backslash \<in> set ad_user then backslash else CHR ''/'') in
           case split1 separator ad_user of
             [user_domain, username] \<Rightarrow>
               if username = [] then
                 Inl (ValueError (''Invalid AD user format: '' @ ad_user @
                                  ''. Username cannot be empty.''))
               else Inr (username, str_or user_domain ad_domain)
           | _ \<Rightarrow> Inl unpack_error)
        else if ad_domain = [] then
          Inl (ValueError (''AD domain must be specified when using plain username: '' @ ad_user))
        else Inr (ad_user, ad_domain))"

text \<open>The three \<open>ValueError\<close>s that \<open>parse_ad_user\<close> raises itself, for the stripped input \<open>s\<close>.\<close>

definition declared_errors :: "string \<Rightarrow> exn set" where
  "declared_errors s =
     {ValueError ''AD user must be specified in config or arguments'',
      ValueError (''Invalid AD user format: '' @ s @ ''. Username cannot be empty.''),
      ValueError (''AD domain must be specified when using plain username: '' @ s)}"

section \<open>Directory-to-lookup sync: \<open>query_ad_users\<close>\<close>

text \<open>
  An entry of \<open>conn.entries\<close>: the \<open>.value\<close> of each of the five requested attributes,
  \<open>None\<close> when the directory entry has no value for it.
\<close>

record entry =
  sAMAccountName :: "string option"
  DisplayName :: "string option"
  EmailAddress :: "string option"
  Department :: "string option"
  Title :: "string option"

text \<open>\<open>value or ''\<close> on an attribute value.\<close>

definition value_or_empty :: "string option \<Rightarrow> string" where
  "value_or_empty v = (case v of None \<Rightarrow> [] | Some s \<Rightarrow> s)"

definition header :: "string list" where
  "header = [''sAMAccountName'', ''DisplayName'', ''EmailAddress'', ''Department'', ''Title'']"

definition csv_row :: "entry \<Rightarrow> string list" where
  "csv_row e =
     [value_or_empty (sAMAccountName e), value_or_empty (DisplayName e),
      value_or_empty (EmailAddress e), value_or_empty (Department e),
      value_or_empty (Title e)]"

text \<open>\<open>sep.join(xs)\<close>\<close>

fun py_join :: "string \<Rightarrow> string list \<Rightarrow> string" where
  "py_join sep [] = []"
| "py_join sep [x] = x"
| "py_join sep (x # y # ys) = x @ sep @ py_join sep (y # ys)"

text \<open>
  The two \<open>except\<close> clauses of \<open>query_ad_users\<close> print a message and call \<open>exit(1)\<close>:
  \<open>Configuration error\<close> for a \<open>ValueError\<close>, \<open>Error querying AD\<close> for anything else.
\<close>

datatype failure = ConfigurationError string | QueryError exn

datatype 'a outcome = Exited nat failure | Returned 'a

definition handler :: "exn \<Rightarrow> 'a outcome" where
  "handler e = (case e of ValueError m \<Rightarrow> Exited 1 (ConfigurationError m)
                        | _ \<Rightarrow> Exited 1 (QueryError e))"

text \<open>
  \<open>query_ad_users\<close>. The directory is a parameter: \<open>ldap_query server user password base\<close>
  is what binding and searching give, the matched entries or the exception raised;
  \<open>can_open path\<close> says whether \<open>open(path, 'w')\<close> succeeds. The result is the list of
  files written, each with the rows handed to \<open>csv.writer\<close>, in order.
\<close>

definition query_ad_users ::
  "(string \<Rightarrow> string \<Rightarrow> string \<Rightarrow> string \<Rightarrow> exn + entry list) \<Rightarrow> (string \<Rightarrow> bool) \<Rightarrow>
   string \<Rightarrow> string \<Rightarrow> string \<Rightarrow> string \<Rightarrow> string \<Rightarrow> string \<Rightarrow>
   (string \<times> string list list) list outcome" where
  "query_ad_users ldap_query can_open ad_server ad_user ad_password ad_domain
                  ad_search_domain output_file =
     (case parse_ad_user ad_user ad_domain of
        Inl e \<Rightarrow> handler e
      | Inr (username, user_domain) \<Rightarrow>
          let full_username =
                (if user_domain \<noteq> [] then username @ ''@'' @ user_domain else username);
              search_domain = str_or ad_search_domain ad_domain
          in
          if search_domain = [] then
            handler (ValueError
              ''AD domain or search domain must be specified in config or arguments'')
          else
            let dc_components = py_split CHR ''.'' search_domain;
                search_base = py_join '','' (map (\<lambda>component. ''dc='' @ component) dc_components)
            in
            if ad_server = [] then
              handler (ValueError ''AD server must be specified in config or arguments'')
            else if ad_password = [] then
              handler (ValueError ''AD password must be specified in config or arguments'')
            else
              (case ldap_query ad_server full_username ad_password search_base of
                 Inl e \<Rightarrow> handler e
               | Inr entries \<Rightarrow>
                   if \<not> can_open output_file then handler OSError
                   else Returned [(output_file, header # map csv_row entries)]))"

section \<open>JSON values\<close>

text \<open>
  What \<open>json.loads\<close> and \<open>response.json()\<close> return. A float is its 64-bit IEEE 754
  pattern; an object keeps its members in order, with distinct keys.
\<close>

datatype json =
    JNull
  | JBool bool
  | JInt int
  | JFloat "64 word"
  | JStr string
  | JArr "json list"
  | JObj "(string \<times> json) list"

text \<open>
  Python truthiness, as \<open>if parsed:\<close> and \<open>not data\<close> test it. A float is falsy when
  it is \<open>0.0\<close> or \<open>-0.0\<close>: the 63 bits below the sign bit are all zero.
\<close>

fun truthy :: "json \<Rightarrow> bool" where
  "truthy JNull = False"
| "truthy (JBool b) = b"
| "truthy (JInt n) = (n \<noteq> 0)"
| "truthy (JFloat w) = (take_bit 63 w \<noteq> 0)"
| "truthy (JStr s) = (s \<noteq> [])"
| "truthy (JArr xs) = (xs \<noteq> [])"
| "truthy (JObj kvs) = (kvs \<noteq> [])"

text \<open>\<open>sub in s\<close> on two strings.\<close>

fun contains_str :: "string \<Rightarrow> string \<Rightarrow> bool" where
  "contains_str [] sub = (sub = [])"
| "contains_str (c # cs) sub = (startswith (c # cs) sub \<or> contains_str cs sub)"

text \<open>\<open>key in data\<close> for a string \<open>key\<close>: a number, a boolean and \<open>None\<close> are not containers.\<close>

fun py_in :: "string \<Rightarrow> json \<Rightarrow> exn + bool" where
  "py_in key (JObj kvs) = Inr (key \<in> set (map fst kvs))"
| "py_in key (JArr xs) = Inr (JStr key \<in> set xs)"
| "py_in key (JStr s) = Inr (contains_str s key)"
| "py_in key _ = Inl TypeError"

text \<open>\<open>data[key]\<close> for a string \<open>key\<close>.\<close>

fun getitem :: "json \<Rightarrow> string \<Rightarrow> exn + json" where
  "getitem (JObj kvs) key = (case map_of kvs key of None \<Rightarrow> Inl (KeyError key) | Some v \<Rightarrow> Inr v)"
| "getitem _ key = Inl TypeError"

text \<open>\<open>data.get(key)\<close>: only a dict has the method.\<close>

fun dict_get :: "json \<Rightarrow> string \<Rightarrow> exn + json" where
  "dict_get (JObj kvs) key = (case map_of kvs key of None \<Rightarrow> Inr JNull | Some v \<Rightarrow> Inr v)"
| "dict_get _ key = Inl AttributeError"

text \<open>\<open>for item in x\<close>: the items a JSON value iterates over.\<close>

fun py_iter :: "json \<Rightarrow> exn + json list" where
  "py_iter (JArr xs) = Inr xs"
| "py_iter (JObj kvs) = Inr (map (\<lambda>kv. JStr (fst kv)) kvs)"
| "py_iter (JStr s) = Inr (map (\<lambda>c. JStr [c]) s)"
| "py_iter _ = Inl TypeError"

section \<open>Directory-to-lookup sync: the lookup endpoints\<close>

text \<open>
  An HTTP exchange is a parameter of type \<open>exn + json\<close>: what the request,
  \<open>raise_for_status()\<close> and \<open>response.json()\<close> give together, the decoded body or
  the exception raised. The functions catch \<open>RequestException\<close> only.
\<close>

text \<open>\<open>any(item.get("id") == lookup_filename for item in items)\<close>, left to right.\<close>

fun any_id :: "json list \<Rightarrow> string \<Rightarrow> exn + bool" where
  "any_id [] lookup_filename = Inr False"
| "any_id (item # rest) lookup_filename =
     (case dict_get item ''id'' of
        Inl e \<Rightarrow> Inl e
      | Inr v \<Rightarrow> if v = JStr lookup_filename then Inr True else any_id rest lookup_filename)"

definition check_lookup_exists :: "exn + json \<Rightarrow> string \<Rightarrow> exn + bool" where
  "check_lookup_exists response lookup_filename =
     (case response of
        Inl e \<Rightarrow> if e = RequestException then Inr False else Inl e
      | Inr data \<Rightarrow>
          if \<not> truthy data then Inr False
          else
            (case py_in ''items'' data of
               Inl e \<Rightarrow> Inl e
             | Inr present \<Rightarrow>
                 if \<not> present then Inr False
                 else
                   (case getitem data ''items'' of
                      Inl e \<Rightarrow> Inl e
                    | Inr items \<Rightarrow>
                        if \<not> truthy items then Inr False
                        else
                          (case py_iter items of
                             Inl e \<Rightarrow> Inl e
                           | Inr its \<Rightarrow> any_id its lookup_filename))))"

definition upload_lookup_file :: "exn + json \<Rightarrow> string \<Rightarrow> exn + string option" where
  "upload_lookup_file response lookup_filename =
     (case response of
        Inl e \<Rightarrow> if e = RequestException then Inr None else Inl e
      | Inr response_data \<Rightarrow>
          (case dict_get response_data ''filename'' of
             Inl e \<Rightarrow> Inl e
           | Inr temp_filename \<Rightarrow>
               if \<not> truthy temp_filename then Inr None
               else
                 (case temp_filename of
                    JStr t \<Rightarrow>
                      if \<not> startswith t (hd (py_split CHR ''.'' lookup_filename))
                      then Inr None
                      else Inr (Some t)
                  | _ \<Rightarrow> Inl AttributeError)))"

text \<open>
  Steps 5 and 6 of \<open>main\<close>. \<open>exit(1)\<close> ends the run; an exception reaches the
  \<open>except Exception\<close> of \<open>main\<close>, which also calls \<open>exit(1)\<close>.
\<close>

datatype 'a step = Exit nat | Next 'a

datatype lookup_call = UpdateLookup | CreateLookup

definition main_upload :: "exn + json \<Rightarrow> string \<Rightarrow> string step" where
  "main_upload response lookup_filename =
     (case upload_lookup_file response lookup_filename of
        Inl e \<Rightarrow> Exit 1
      | Inr None \<Rightarrow> Exit 1
      | Inr (Some temp_filename) \<Rightarrow> if temp_filename = [] then Exit 1 else Next temp_filename)"

definition main_create_or_update :: "exn + json \<Rightarrow> string \<Rightarrow> lookup_call step" where
  "main_create_or_update response lookup_filename =
     (case check_lookup_exists response lookup_filename of
        Inl e \<Rightarrow> Exit 1
      | Inr exists \<Rightarrow> if exists then Next UpdateLookup else Next CreateLookup)"

text \<open>
  A lookup catalog: a JSON object whose \<open>items\<close> member, when there is one, is an array
  of objects.
\<close>

fun is_object :: "json \<Rightarrow> bool" where
  "is_object (JObj kvs) = True"
| "is_object _ = False"

definition catalog_items :: "json \<Rightarrow> json list option" where
  "catalog_items data =
     (case data of
        JObj kvs \<Rightarrow>
          (case map_of kvs ''items'' of
             None \<Rightarrow> Some []
           | Some (JArr its) \<Rightarrow> if list_all is_object its then Some its else None
           | Some _ \<Rightarrow> None)
      | _ \<Rightarrow> None)"

text \<open>The \<open>id\<close> of a catalog item, \<open>None\<close> in Python when the item has none.\<close>

definition item_id :: "json \<Rightarrow> json" where
  "item_id item = (case item of JObj kvs \<Rightarrow> (case map_of kvs ''id'' of None \<Rightarrow> JNull | Some v \<Rightarrow> v)
                             | _ \<Rightarrow> JNull)"

section \<open>Directory-to-lookup sync: configuration\<close>










text \<open>The ten variables that step 2 of \<open>main\<close> assigns.\<close>

record settings =
  client_id :: string
  client_secret :: string
  organization_id :: string
  lookup_filename :: string
  target_worker_group :: string
  ad_server :: string
  ad_user :: string
  ad_password :: string
  ad_domain :: string
  ad_search_domain :: string






section \<open>Search-to-table: the job status poll loop\<close>

text \<open>
  What the script does that the outside sees: a status request, a sleep of so many
  seconds, the results request.
\<close>

datatype event = GetStatus nat | Sleep nat | GetResults

datatype loop_exit = Break | Exhausted | Raised exn

definition max_attempts :: nat where
  "max_attempts = 60"

text \<open>
  The \<open>for attempt in range(max_attempts)\<close> loop over the attempts that remain.
  \<open>status_at attempt\<close> is what the status request of that attempt gives:
  \<open>items[0].status\<close> of the response, or the exception raised on the way to it.
\<close>

fun poll_loop :: "(nat \<Rightarrow> exn + string) \<Rightarrow> nat list \<Rightarrow> event list \<times> loop_exit" where
  "poll_loop status_at [] = ([], Exhausted)"
| "poll_loop status_at (attempt # rest) =
     (case status_at attempt of
        Inl e \<Rightarrow> ([GetStatus attempt], Raised e)
      | Inr job_status \<Rightarrow>
          if job_status \<in> set [''done'', ''completed''] then ([GetStatus attempt], Break)
          else if job_status = ''failed'' then
            ([GetStatus attempt], Raised (Exception ''Search job failed''))
          else
            (case poll_loop status_at rest of
               (evs, r) \<Rightarrow> (GetStatus attempt # Sleep 2 # evs, r)))"

text \<open>
  The loop and the statement after it: an exception ends the script, any other exit of
  the loop goes on to the results request.
\<close>

definition poll_and_fetch :: "(nat \<Rightarrow> exn + string) \<Rightarrow> event list \<times> exn option" where
  "poll_and_fetch status_at =
     (case poll_loop status_at [0..<max_attempts] of
        (evs, Raised e) \<Rightarrow> (evs, Some e)
      | (evs, _) \<Rightarrow> (evs @ [GetResults], None))"

text \<open>The status of attempt \<open>i\<close> is polled and is not a terminal one.\<close>

definition pending :: "(nat \<Rightarrow> exn + string) \<Rightarrow> nat \<Rightarrow> bool" where
  "pending status_at i =
     (case status_at i of
        Inl e \<Rightarrow> False
      | Inr s \<Rightarrow> s \<noteq> ''done'' \<and> s \<noteq> ''completed'' \<and> s \<noteq> ''failed'')"

text \<open>The events of \<open>k\<close> attempts that found the job pending.\<close>

definition pending_rounds :: "nat \<Rightarrow> event list" where
  "pending_rounds k = concat (map (\<lambda>i. [GetStatus i, Sleep 2]) [0..<k])"

section \<open>Search-to-table: NDJSON parsing\<close>

text \<open>
  The loop over the lines, with the list \<open>results\<close> it appends to. \<open>loads\<close> is
  \<open>json.loads\<close>, a parameter: the value a line parses to, or the exception raised.
\<close>

fun parse_lines :: "(string \<Rightarrow> exn + json) \<Rightarrow> string list \<Rightarrow> json list \<Rightarrow> exn + json list" where
  "parse_lines loads [] results = Inr results"
| "parse_lines loads (line # rest) results =
     (if py_strip line \<noteq> [] then
        (case loads line of
           Inl e \<Rightarrow> Inl e
         | Inr parsed \<Rightarrow>
             if truthy parsed then parse_lines loads rest (results @ [parsed])
             else parse_lines loads rest results)
      else parse_lines loads rest results)"

text \<open>\<open>results_response.text.strip().split('\n')\<close>\<close>

definition text_lines :: "string \<Rightarrow> string list" where
  "text_lines text = py_split CHR 0x0A (py_strip text)"

definition parse_ndjson :: "(string \<Rightarrow> exn + json) \<Rightarrow> string \<Rightarrow> exn + json list" where
  "parse_ndjson loads text = parse_lines loads (text_lines text) []"

text \<open>A line is blank when \<open>line.strip()\<close> is empty.\<close>

definition blank :: "string \<Rightarrow> bool" where
  "blank line = (py_strip line = [])"

text \<open>The value of a line that parses.\<close>

definition parsed_value :: "(string \<Rightarrow> exn + json) \<Rightarrow> string \<Rightarrow> json" where
  "parsed_value loads line = (case loads line of Inr v \<Rightarrow> v | Inl e \<Rightarrow> JNull)"

definition parses :: "(string \<Rightarrow> exn + json) \<Rightarrow> string \<Rightarrow> bool" where
  "parses loads line = (case loads line of Inr v \<Rightarrow> True | Inl e \<Rightarrow> False)"

section \<open>Search-to-table: the table\<close>

text \<open>
  A \<open>pandas.DataFrame\<close> built from a list of records: the column labels and the rows,
  each row with its index label and one cell per column. pandas is a library; the
  three operations below follow its documentation.
\<close>

record dataframe =
  columns :: "string list"
  rows :: "(nat \<times> json list) list"

text \<open>
  \<open>pd.DataFrame(results)\<close> for records. The columns are the keys in order of first
  occurrence and the index labels are \<open>0, 1, ...\<close>. What a cell holds is decided by
  pandas per column (a column of integers with a gap is stored as \<open>float64\<close>, a gap as
  \<open>NaN\<close>): \<open>convert c col v\<close> is the cell stored in column \<open>c\<close>, whose values over all
  records are \<open>col\<close>, for the record's value \<open>v\<close>, with \<open>None\<close> for a record without the
  key. It is a parameter.
\<close>

definition DataFrame ::
  "(string \<Rightarrow> json option list \<Rightarrow> json option \<Rightarrow> json) \<Rightarrow> (string \<times> json) list list \<Rightarrow> dataframe" where
  "DataFrame convert results =
     (let cols = rev (remdups (rev (concat (map (map fst) results))));
          col = (\<lambda>c. map (\<lambda>r. map_of r c) results)
      in \<lparr>columns = cols,
          rows = map (\<lambda>ir. (fst ir, map (\<lambda>c. convert c (col c) (map_of (snd ir) c)) cols))
                     (zip [0..<length results] results)\<rparr>)"

definition columns_to_remove :: "string list" where
  "columns_to_remove =
     [''isFinished'', ''offset'', ''persistedEventCount'', ''totalEventCount'', ''job'']"

text \<open>\<open>df.drop(columns=cs, errors='ignore')\<close>: labels that are not columns are skipped.\<close>

definition drop_columns :: "string list \<Rightarrow> dataframe \<Rightarrow> dataframe" where
  "drop_columns cs df =
     \<lparr>columns = filter (\<lambda>c. c \<notin> set cs) (columns df),
      rows = map (\<lambda>ir. (fst ir,
                        map snd (filter (\<lambda>cv. fst cv \<notin> set cs) (zip (columns df) (snd ir)))))
                 (rows df)\<rparr>"

text \<open>
  \<open>pandas.isna\<close> on what a cell holds: \<open>None\<close>, or a float \<open>NaN\<close> (exponent bits all set
  and a mantissa that is not zero). An empty string is a value.
\<close>

definition isna :: "json \<Rightarrow> bool" where
  "isna cell =
     (case cell of
        JNull \<Rightarrow> True
      | JFloat w \<Rightarrow> take_bit 11 (drop_bit 52 w) = 2047 \<and> take_bit 52 w \<noteq> 0
      | _ \<Rightarrow> False)"

text \<open>
  \<open>df.dropna(how='all')\<close>: pandas computes the mask \<open>notna(df).any(axis=1)\<close> and
  selects the rows where it holds, with their index labels.
\<close>

definition dropna_all :: "dataframe \<Rightarrow> dataframe" where
  "dropna_all df =
     (let mask = map (\<lambda>ir. list_ex (\<lambda>cell. \<not> isna cell) (snd ir)) (rows df)
      in \<lparr>columns = columns df, rows = map fst (filter snd (zip (rows df) mask))\<rparr>)"

text \<open>Lines 109 to 115 of the script.\<close>

definition build_table ::
  "(string \<Rightarrow> json option list \<Rightarrow> json option \<Rightarrow> json) \<Rightarrow> (string \<times> json) list list \<Rightarrow> dataframe" where
  "build_table convert results =
     dropna_all (drop_columns columns_to_remove (DataFrame convert results))"

text \<open>A value of a record is missing: the record has not the key, or the value is \<open>null\<close> or \<open>NaN\<close>.\<close>

definition missing :: "json option \<Rightarrow> bool" where
  "missing v = (case v of None \<Rightarrow> True | Some x \<Rightarrow> isna x)"

text \<open>A record has a value that is not missing under a key that is not removed.\<close>

definition has_value :: "(string \<times> json) list \<Rightarrow> bool" where
  "has_value r =
     list_ex (\<lambda>k. k \<notin> set columns_to_remove \<and> \<not> missing (map_of r k)) (map fst r)"

text \<open>
  Storage that keeps every value as it is and fills a gap with \<open>NaN\<close>: what pandas does
  in a column of dtype \<open>object\<close>, such as a column of strings.
\<close>

definition object_cells :: "string \<Rightarrow> json option list \<Rightarrow> json option \<Rightarrow> json" where
  "object_cells c col v = (case v of None \<Rightarrow> JFloat 0x7FF8000000000000 | Some x \<Rightarrow> x)"

section \<open>Properties of \<open>parse_ad_user\<close>\<close>

lemma set_py_strip: "set (py_strip s) \<subseteq> set s"
proof -
  have "set (py_strip s) \<subseteq> set (dropWhile isspace s)"
    unfolding py_strip_def using set_dropWhileD by fastforce
  also have "\<dots> \<subseteq> set s"
    using set_dropWhileD by fastforce
  finally show ?thesis .
qed

lemma py_strip_Nil: "py_strip [] = []"
  by (simp add: py_strip_def)

lemma split1_two: "sep \<in> set s \<Longrightarrow> \<exists>a b. split1 sep s = [a, b]"
  by (simp add: split1_def)

lemma split1_suffix_sep:
  "sep \<notin> set name \<Longrightarrow> split1 sep (name @ [sep]) = [name, []]"
proof -
  assume "sep \<notin> set name"
  then have "\<And>c. c \<in> set name \<Longrightarrow> c \<noteq> sep" by auto
  then have "takeWhile (\<lambda>c. c \<noteq> sep) (name @ [sep]) = name"
    and "dropWhile (\<lambda>c. c \<noteq> sep) (name @ [sep]) = [sep]"
    by simp_all
  then show ?thesis by (simp add: split1_def)
qed

lemma split1_prefix_sep: "split1 sep (sep # name) = [[], name]"
  by (simp add: split1_def)

lemma parse_ad_user_total:
  "(\<exists>p. parse_ad_user u d = Inr p) \<or> (\<exists>e \<in> declared_errors (py_strip u). parse_ad_user u d = Inl e)"
proof (cases "u = []")
  case True
  then show ?thesis by (simp add: parse_ad_user_def declared_errors_def)
next
  case False
  show ?thesis
  proof (cases "CHR ''@'' \<in> set (py_strip u)")
    case True
    then obtain a b where "split1 CHR ''@'' (py_strip u) = [a, b]"
      using split1_two by blast
    with False True show ?thesis
      by (simp add: parse_ad_user_def declared_errors_def Let_def)
  next
    case noat: False
    show ?thesis
    proof (cases "backslash \<in> set (py_strip u) \<or> CHR ''/'' \<in> set (py_strip u)")
      case True
      let ?sep = "if backslash \<in> set (py_strip u) then backslash else CHR ''/''"
      from True have "?sep \<in> set (py_strip u)" by auto
      then obtain a b where "split1 ?sep (py_strip u) = [a, b]"
        using split1_two by blast
      with False noat True show ?thesis
        by (simp add: parse_ad_user_def declared_errors_def Let_def)
    next
      case False
      with \<open>u \<noteq> []\<close> noat show ?thesis
        by (simp add: parse_ad_user_def declared_errors_def Let_def)
    qed
  qed
qed

lemma parse_ad_user_bare_no_domain:
  assumes "CHR ''@'' \<notin> set u" "backslash \<notin> set u" "CHR ''/'' \<notin> set u"
  shows "\<exists>m. parse_ad_user u [] = Inl (ValueError m)"
proof -
  from assms set_py_strip [of u]
  have "CHR ''@'' \<notin> set (py_strip u)" "backslash \<notin> set (py_strip u)" "CHR ''/'' \<notin> set (py_strip u)"
    by auto
  then show ?thesis by (simp add: parse_ad_user_def Let_def)
qed

lemmas ev = parse_ad_user_def py_strip_def isspace_def whitespace_def split1_def str_or_def backslash_def

text \<open>
  C1. \<open>parse_ad_user\<close> is a total function: on every input it returns a pair or
  raises one of its own three \<open>ValueError\<close>s, never the unpacking error. The UPN input
  \<open>joe@x.com\<close> gives \<open>(joe, x.com)\<close> and the NetBIOS input made of \<open>DOM\<close>,
  a backslash and \<open>joe\<close> gives \<open>(joe, DOM)\<close>, whatever domain is supplied; the bare
  input \<open>joe\<close> with the domain \<open>x.com\<close> gives \<open>(joe, x.com)\<close>; and a bare input (no \<open>@\<close>, backslash or slash)
  with no domain supplied raises a \<open>ValueError\<close>, which \<open>query_ad_users\<close> reports as a
  configuration error before it exits with status 1.
\<close>

theorem parse_ad_user_cases:
  "parse_ad_user ''joe@x.com'' d = Inr (''joe'', ''x.com'') \<and>
   parse_ad_user (''DOM'' @ [backslash] @ ''joe'') d = Inr (''joe'', ''DOM'') \<and>
   parse_ad_user ''joe'' ''x.com'' = Inr (''joe'', ''x.com'') \<and>
   parse_ad_user ''joe'' [] =
     Inl (ValueError ''AD domain must be specified when using plain username: joe'') \<and>
   (CHR ''@'' \<notin> set u \<and> backslash \<notin> set u \<and> CHR ''/'' \<notin> set u \<longrightarrow>
      (\<exists>m. parse_ad_user u [] = Inl (ValueError m) \<and>
           query_ad_users ldap_query can_open srv u pw [] sd out =
             Exited 1 (ConfigurationError m))) \<and>
   ((\<exists>p. parse_ad_user u d = Inr p) \<or>
    (\<exists>e \<in> declared_errors (py_strip u). parse_ad_user u d = Inl e))"
proof -
  have a: "parse_ad_user ''joe@x.com'' d = Inr (''joe'', ''x.com'')"
    by (simp add: ev)
  have b: "parse_ad_user (''DOM'' @ [backslash] @ ''joe'') d = Inr (''joe'', ''DOM'')"
    by (simp add: ev)
  have c: "parse_ad_user ''joe'' ''x.com'' = Inr (''joe'', ''x.com'')"
    by (simp add: ev)
  have e: "parse_ad_user ''joe'' [] =
     Inl (ValueError ''AD domain must be specified when using plain username: joe'')"
    by (simp add: ev)
  have f: "\<exists>m. parse_ad_user u [] = Inl (ValueError m) \<and>
           query_ad_users ldap_query can_open srv u pw [] sd out =
             Exited 1 (ConfigurationError m)"
    if "CHR ''@'' \<notin> set u \<and> backslash \<notin> set u \<and> CHR ''/'' \<notin> set u"
  proof -
    from that obtain m where "parse_ad_user u [] = Inl (ValueError m)"
      using parse_ad_user_bare_no_domain [of u] by blast
    then show ?thesis by (simp add: query_ad_users_def handler_def)
  qed
  from a b c e f parse_ad_user_total [of u d]
  show ?thesis by blast
qed

theorem parse_ad_user_cases_witness:
  "\<exists>m. parse_ad_user ''  svc_reader '' [] = Inl (ValueError m) \<and>
       query_ad_users (\<lambda>s u p b. Inr []) (\<lambda>f. True) ''ldap://dc1'' ''  svc_reader '' ''pw'' []
         ''corp.example'' ''users.csv'' = Exited 1 (ConfigurationError m)"
  using parse_ad_user_cases [where u = "''  svc_reader ''"]
  by (simp add: backslash_def)

text \<open>
  C10. A UPN or NetBIOS input whose domain part is empty does not raise: \<open>joe@\<close> and
  a backslash before \<open>joe\<close> give \<open>(joe, ad_domain)\<close> for every \<open>ad_domain\<close>, the empty one included.
  The same holds for every non-empty user name in front of a final \<open>@\<close>, or behind a
  leading backslash or slash.
\<close>

theorem parse_ad_user_empty_domain_part:
  "parse_ad_user ''joe@'' d = Inr (''joe'', d) \<and>
   parse_ad_user (backslash # ''joe'') d = Inr (''joe'', d) \<and>
   parse_ad_user ''joe@'' [] = Inr (''joe'', []) \<and>
   parse_ad_user (backslash # ''joe'') [] = Inr (''joe'', []) \<and>
   (name \<noteq> [] \<and> CHR ''@'' \<notin> set name \<and> py_strip u = name @ ''@'' \<longrightarrow>
      parse_ad_user u d = Inr (name, d)) \<and>
   (name \<noteq> [] \<and> CHR ''@'' \<notin> set name \<and> py_strip u = backslash # name \<longrightarrow>
      parse_ad_user u d = Inr (name, d)) \<and>
   (name \<noteq> [] \<and> CHR ''@'' \<notin> set name \<and> backslash \<notin> set name \<and>
    py_strip u = CHR ''/'' # name \<longrightarrow>
      parse_ad_user u d = Inr (name, d))"
proof -
  have a: "parse_ad_user ''joe@'' d = Inr (''joe'', d)" for d
    by (simp add: ev)
  have b: "parse_ad_user (backslash # ''joe'') d = Inr (''joe'', d)" for d
    by (simp add: ev)
  have c: "parse_ad_user u d = Inr (name, d)"
    if "name \<noteq> []" "CHR ''@'' \<notin> set name" "py_strip u = name @ ''@''"
  proof -
    from that have "u \<noteq> []" using py_strip_Nil by auto
    with that split1_suffix_sep [of "CHR ''@''" name] show ?thesis
      by (simp add: parse_ad_user_def str_or_def)
  qed
  have d: "parse_ad_user u d = Inr (name, d)"
    if "name \<noteq> []" "CHR ''@'' \<notin> set name" "py_strip u = backslash # name"
  proof -
    from that have "u \<noteq> []" using py_strip_Nil by auto
    with that split1_prefix_sep [of backslash name] show ?thesis
      by (simp add: parse_ad_user_def str_or_def backslash_def)
  qed
  have e: "parse_ad_user u d = Inr (name, d)"
    if "name \<noteq> []" "CHR ''@'' \<notin> set name" "backslash \<notin> set name" "py_strip u = CHR ''/'' # name"
  proof -
    from that have "u \<noteq> []" using py_strip_Nil by auto
    with that split1_prefix_sep [of "CHR ''/''" name] show ?thesis
      by (simp add: parse_ad_user_def str_or_def backslash_def)
  qed
  from a b c d e show ?thesis by blast
qed

theorem parse_ad_user_empty_domain_part_witness:
  "parse_ad_user '' ops.admin@ '' [] = Inr (''ops.admin'', []) \<and>
   parse_ad_user ''/ops'' ''corp.example'' = Inr (''ops'', ''corp.example'')"
  using parse_ad_user_empty_domain_part [where name = "''ops.admin''" and u = "'' ops.admin@ ''" and d = "[]"]
        parse_ad_user_empty_domain_part [where name = "''ops''" and u = "''/ops''" and d = "''corp.example''"]
  by (simp add: py_strip_def isspace_def whitespace_def backslash_def)

section \<open>Properties of \<open>query_ad_users\<close>\<close>



section \<open>Properties of the lookup endpoints\<close>

lemma py_split_not_Nil: "py_split sep s \<noteq> []"
  by (induction s) (auto split: list.splits)

lemma hd_py_split: "hd (py_split sep s) = takeWhile (\<lambda>c. c \<noteq> sep) s"
proof (induction s)
  case Nil
  show ?case by simp
next
  case (Cons c cs)
  show ?case
  proof (cases "c = sep")
    case True
    then show ?thesis by simp
  next
    case False
    obtain w ws where w: "py_split sep cs = w # ws"
      using py_split_not_Nil [of sep cs] by (cases "py_split sep cs") auto
    with Cons False show ?thesis by simp
  qed
qed

lemma upload_lookup_file_object:
  "upload_lookup_file (Inr (JObj kvs)) fn =
     (case map_of kvs ''filename'' of
        None \<Rightarrow> Inr None
      | Some (JStr t) \<Rightarrow>
          if t \<noteq> [] \<and> take (length (takeWhile (\<lambda>c. c \<noteq> CHR ''.'') fn)) t =
                        takeWhile (\<lambda>c. c \<noteq> CHR ''.'') fn
          then Inr (Some t) else Inr None
      | Some v \<Rightarrow> if truthy v then Inl AttributeError else Inr None)"
  by (simp add: upload_lookup_file_def hd_py_split startswith_def
           split: option.splits json.splits)

lemma upload_lookup_file_not_object:
  "\<not> is_object data \<Longrightarrow> upload_lookup_file (Inr data) fn = Inl AttributeError"
  by (cases data) (simp_all add: upload_lookup_file_def)

lemma upload_lookup_file_raised:
  "upload_lookup_file (Inl e) fn \<noteq> Inr (Some t)"
  by (simp add: upload_lookup_file_def)

text \<open>
  C7. \<open>upload_lookup_file\<close> returns the temporary file name \<open>t\<close> exactly when the
  response is an object whose \<open>filename\<close> member is the non-empty string \<open>t\<close> and \<open>t\<close>
  starts with the part of the lookup file name before its first dot; \<open>main\<close> goes on with
  \<open>t\<close> in exactly that case. When the member is missing, or is a string that does not
  start so, the function returns \<open>None\<close> and \<open>main\<close> exits with status 1.
\<close>

theorem upload_lookup_file_filename:
  "((upload_lookup_file response fn = Inr (Some t)) =
      (\<exists>kvs. response = Inr (JObj kvs) \<and> map_of kvs ''filename'' = Some (JStr t) \<and> t \<noteq> [] \<and>
             take (length (takeWhile (\<lambda>c. c \<noteq> CHR ''.'') fn)) t =
               takeWhile (\<lambda>c. c \<noteq> CHR ''.'') fn)) \<and>
   ((main_upload response fn = Next t) = (upload_lookup_file response fn = Inr (Some t))) \<and>
   (response = Inr (JObj kvs) \<and>
    (map_of kvs ''filename'' = None \<or>
     (\<exists>s. map_of kvs ''filename'' = Some (JStr s) \<and>
          take (length (takeWhile (\<lambda>c. c \<noteq> CHR ''.'') fn)) s \<noteq>
            takeWhile (\<lambda>c. c \<noteq> CHR ''.'') fn)) \<longrightarrow>
      upload_lookup_file response fn = Inr None \<and> main_upload response fn = Exit 1)"
proof -
  have a: "(upload_lookup_file response fn = Inr (Some t)) =
      (\<exists>kvs. response = Inr (JObj kvs) \<and> map_of kvs ''filename'' = Some (JStr t) \<and> t \<noteq> [] \<and>
             take (length (takeWhile (\<lambda>c. c \<noteq> CHR ''.'') fn)) t =
               takeWhile (\<lambda>c. c \<noteq> CHR ''.'') fn)"
  proof (cases response)
    case (Inl e)
    then show ?thesis using upload_lookup_file_raised by simp
  next
    case (Inr data)
    show ?thesis
    proof (cases data)
      case (JObj kvs)
      with Inr show ?thesis
        by (auto simp add: upload_lookup_file_object split: option.splits json.splits)
    qed (use Inr in \<open>simp_all add: upload_lookup_file_not_object\<close>)
  qed
  have b: "(main_upload response fn = Next t) = (upload_lookup_file response fn = Inr (Some t))"
  proof -
    have "t \<noteq> []" if "upload_lookup_file response fn = Inr (Some t)"
      using that a by blast
    then show ?thesis
      by (auto simp add: main_upload_def split: sum.splits option.splits if_splits)
  qed
  have c: "upload_lookup_file response fn = Inr None \<and> main_upload response fn = Exit 1"
    if "response = Inr (JObj kvs) \<and>
    (map_of kvs ''filename'' = None \<or>
     (\<exists>s. map_of kvs ''filename'' = Some (JStr s) \<and>
          take (length (takeWhile (\<lambda>c. c \<noteq> CHR ''.'') fn)) s \<noteq>
            takeWhile (\<lambda>c. c \<noteq> CHR ''.'') fn))"
  proof -
    from that have "upload_lookup_file response fn = Inr None"
      by (auto simp add: upload_lookup_file_object)
    then show ?thesis by (simp add: main_upload_def)
  qed
  from a b c show ?thesis by blast
qed

theorem upload_lookup_file_filename_witness:
  "upload_lookup_file (Inr (JObj [(''filename'', JStr ''users.Xq3.csv'')])) ''users.csv'' =
     Inr (Some ''users.Xq3.csv'') \<and>
   main_upload (Inr (JObj [(''filename'', JStr ''users.Xq3.csv'')])) ''users.csv'' =
     Next ''users.Xq3.csv'' \<and>
   upload_lookup_file (Inr (JObj [(''filename'', JStr ''tmp.Xq3.csv'')])) ''users.csv'' = Inr None \<and>
   main_upload (Inr (JObj [(''filename'', JStr ''tmp.Xq3.csv'')])) ''users.csv'' = Exit 1 \<and>
   upload_lookup_file (Inr (JObj [(''version'', JInt 3)])) ''users.csv'' = Inr None \<and>
   main_upload (Inr (JObj [(''version'', JInt 3)])) ''users.csv'' = Exit 1"
  using
    upload_lookup_file_filename [where response = "Inr (JObj [(''filename'', JStr ''users.Xq3.csv'')])"
      and fn = "''users.csv''" and t = "''users.Xq3.csv''" and kvs = "[]"]
    upload_lookup_file_filename [where response = "Inr (JObj [(''filename'', JStr ''tmp.Xq3.csv'')])"
      and fn = "''users.csv''" and kvs = "[(''filename'', JStr ''tmp.Xq3.csv'')]"]
    upload_lookup_file_filename [where response = "Inr (JObj [(''version'', JInt 3)])"
      and fn = "''users.csv''" and kvs = "[(''version'', JInt 3)]"]
  by simp

lemma any_id_objects:
  "list_all is_object its \<Longrightarrow>
   any_id its fn = Inr (\<exists>it \<in> set its. item_id it = JStr fn)"
proof (induction its)
  case Nil
  show ?case by simp
next
  case (Cons it its)
  then obtain kvs where "it = JObj kvs" by (cases it) auto
  with Cons show ?case
    by (auto simp add: item_id_def split: option.splits)
qed

lemma check_lookup_exists_catalog:
  assumes "catalog_items data = Some its"
  shows "check_lookup_exists (Inr data) fn = Inr (\<exists>it \<in> set its. item_id it = JStr fn)"
proof -
  from assms obtain kvs where d: "data = JObj kvs"
    by (cases data) (simp_all add: catalog_items_def)
  show ?thesis
  proof (cases "map_of kvs ''items''")
    case None
    then have "''items'' \<notin> fst ` set kvs" by (simp add: map_of_eq_None_iff)
    with assms d None show ?thesis
      by (auto simp add: check_lookup_exists_def catalog_items_def)
  next
    case (Some v)
    then have k: "''items'' \<in> fst ` set kvs" by (metis map_of_eq_None_iff option.distinct(1))
    from Some have ne: "kvs \<noteq> []" by auto
    from assms d Some have v: "v = JArr its" and ob: "list_all is_object its"
      by (auto simp add: catalog_items_def split: json.splits if_splits)
    from d Some k ne v ob show ?thesis
      by (cases its) (simp_all add: check_lookup_exists_def any_id_objects del: any_id.simps)
  qed
qed

text \<open>
  C6. A failed request makes \<open>check_lookup_exists\<close> return \<open>False\<close>, and \<open>main\<close> goes to
  the create call. A response with a catalog is answered by whether some item has an
  \<open>id\<close> equal to the file name; when no item has, the result is the one of the failed
  request and \<open>main\<close> goes to the create call as well.
\<close>

theorem check_lookup_exists_soft_fail:
  "check_lookup_exists (Inl RequestException) fn = Inr False \<and>
   main_create_or_update (Inl RequestException) fn = Next CreateLookup \<and>
   (catalog_items data = Some its \<longrightarrow>
      check_lookup_exists (Inr data) fn = Inr (\<exists>it \<in> set its. item_id it = JStr fn)) \<and>
   (catalog_items data = Some its \<and> (\<forall>it \<in> set its. item_id it \<noteq> JStr fn) \<longrightarrow>
      check_lookup_exists (Inr data) fn = check_lookup_exists (Inl RequestException) fn \<and>
      main_create_or_update (Inr data) fn = Next CreateLookup)"
proof -
  have a: "check_lookup_exists (Inl RequestException) fn = Inr False"
    by (simp add: check_lookup_exists_def)
  then have b: "main_create_or_update (Inl RequestException) fn = Next CreateLookup"
    by (simp add: main_create_or_update_def)
  have c: "check_lookup_exists (Inr data) fn = Inr False"
    if "catalog_items data = Some its" "\<forall>it \<in> set its. item_id it \<noteq> JStr fn"
    using that check_lookup_exists_catalog [of data its fn] by simp
  then have d: "main_create_or_update (Inr data) fn = Next CreateLookup"
    if "catalog_items data = Some its" "\<forall>it \<in> set its. item_id it \<noteq> JStr fn"
    using that by (simp add: main_create_or_update_def)
  from a b c d check_lookup_exists_catalog [of data its fn] show ?thesis by simp
qed

theorem check_lookup_exists_soft_fail_witness:
  "check_lookup_exists
     (Inr (JObj [(''items'', JArr [JObj [(''id'', JStr ''users.csv.bak'')], JObj [(''size'', JInt 10)]]),
                 (''count'', JInt 2)])) ''users.csv'' = Inr False \<and>
   main_create_or_update
     (Inr (JObj [(''items'', JArr [JObj [(''id'', JStr ''users.csv.bak'')], JObj [(''size'', JInt 10)]]),
                 (''count'', JInt 2)])) ''users.csv'' = Next CreateLookup \<and>
   check_lookup_exists
     (Inr (JObj [(''items'', JArr [JObj [(''id'', JStr ''users.csv'')]])])) ''users.csv'' = Inr True"
  using
    check_lookup_exists_soft_fail [where fn = "''users.csv''"
      and data = "JObj [(''items'', JArr [JObj [(''id'', JStr ''users.csv.bak'')], JObj [(''size'', JInt 10)]]),
                 (''count'', JInt 2)]"
      and its = "[JObj [(''id'', JStr ''users.csv.bak'')], JObj [(''size'', JInt 10)]]"]
    check_lookup_exists_soft_fail [where fn = "''users.csv''"
      and data = "JObj [(''items'', JArr [JObj [(''id'', JStr ''users.csv'')]])]"
      and its = "[JObj [(''id'', JStr ''users.csv'')]]"]
  by (simp add: catalog_items_def item_id_def)

section \<open>Properties of the configuration\<close>











section \<open>Properties of the poll loop\<close>

lemma poll_loop_all_pending:
  "(\<And>a. a \<in> set xs \<Longrightarrow> pending status_at a) \<Longrightarrow>
   poll_loop status_at xs = (concat (map (\<lambda>i. [GetStatus i, Sleep 2]) xs), Exhausted)"
proof (induction xs)
  case Nil
  show ?case by simp
next
  case (Cons a xs)
  from Cons.prems have "pending status_at a" by simp
  then obtain s where "status_at a = Inr s" "s \<noteq> ''done''" "s \<noteq> ''completed''" "s \<noteq> ''failed''"
    by (auto simp add: pending_def split: sum.splits)
  with Cons show ?case by simp
qed

lemma poll_loop_stops:
  "(\<And>a. a \<in> set xs \<Longrightarrow> pending status_at a) \<Longrightarrow> \<not> pending status_at k \<Longrightarrow>
   poll_loop status_at (xs @ k # ys) =
     (concat (map (\<lambda>i. [GetStatus i, Sleep 2]) xs) @ [GetStatus k],
      snd (poll_loop status_at [k]))"
proof (induction xs)
  case Nil
  then show ?case
    by (auto simp add: pending_def split: sum.splits)
next
  case (Cons a xs)
  from Cons.prems have "pending status_at a" by simp
  then obtain s where "status_at a = Inr s" "s \<noteq> ''done''" "s \<noteq> ''completed''" "s \<noteq> ''failed''"
    by (auto simp add: pending_def split: sum.splits)
  with Cons show ?case by simp
qed

lemma upt_split_at: "k < n \<Longrightarrow> [0..<n] = [0..<k] @ k # [Suc k..<n]"
proof -
  assume "k < n"
  then have "[0..<n] = [0..<k + (n - k)]" by simp
  also have "\<dots> = [0..<k] @ [k..<k + (n - k)]" by (rule upt_add_eq_append) simp
  also from \<open>k < n\<close> have "[k..<k + (n - k)] = k # [Suc k..<n]" by (simp add: upt_conv_Cons)
  finally show ?thesis .
qed

lemma poll_loop_exhausted:
  assumes "\<And>j. j < n \<Longrightarrow> pending status_at j"
  shows "poll_loop status_at [0..<n] = (pending_rounds n, Exhausted)"
  using poll_loop_all_pending [of "[0..<n]" status_at] assms
  by (simp add: pending_rounds_def)

lemma poll_loop_first_stop:
  assumes "k < n" "\<And>j. j < k \<Longrightarrow> pending status_at j" "\<not> pending status_at k"
  shows "poll_loop status_at [0..<n] =
           (pending_rounds k @ [GetStatus k], snd (poll_loop status_at [k]))"
  using poll_loop_stops [of "[0..<k]" status_at k "[Suc k..<n]"] assms
  by (simp add: pending_rounds_def upt_split_at [symmetric])

lemma stop_exit:
  "status_at k = Inl e \<Longrightarrow> snd (poll_loop status_at [k]) = Raised e"
  "status_at k = Inr ''done'' \<Longrightarrow> snd (poll_loop status_at [k]) = Break"
  "status_at k = Inr ''completed'' \<Longrightarrow> snd (poll_loop status_at [k]) = Break"
  "status_at k = Inr ''failed'' \<Longrightarrow>
     snd (poll_loop status_at [k]) = Raised (Exception ''Search job failed'')"
  by simp_all

lemma not_pending_cases:
  "\<not> pending status_at k \<Longrightarrow>
   (\<exists>e. status_at k = Inl e) \<or> status_at k = Inr ''done'' \<or> status_at k = Inr ''completed'' \<or>
   status_at k = Inr ''failed''"
  by (auto simp add: pending_def split: sum.splits)

lemma pending_not_terminal:
  "pending status_at k \<Longrightarrow>
   status_at k \<noteq> Inl e \<and> status_at k \<noteq> Inr ''done'' \<and> status_at k \<noteq> Inr ''completed'' \<and>
   status_at k \<noteq> Inr ''failed''"
  by (auto simp add: pending_def split: sum.splits)

lemma count_status_rounds:
  "length (filter (\<lambda>e. \<exists>i. e = GetStatus i) (pending_rounds k)) = k"
  unfolding pending_rounds_def
proof (induction k)
  case 0
  show ?case by simp
next
  case (Suc k)
  then show ?case by simp
qed

text \<open>The first attempt that does not find the job pending, when there is one.\<close>

lemma first_stop:
  assumes "\<not> (\<forall>j<n. pending status_at j)"
  shows "\<exists>k<n. (\<forall>j<k. pending status_at j) \<and> \<not> pending status_at k"
proof -
  define k where "k = (LEAST j. \<not> pending status_at j)"
  from assms obtain j where j: "j < n" "\<not> pending status_at j" by blast
  then have 1: "\<not> pending status_at k" unfolding k_def by (metis (mono_tags) LeastI)
  have "k \<le> j" unfolding k_def using j by (simp add: Least_le)
  with j have 2: "k < n" by simp
  have 3: "pending status_at i" if "i < k" for i
    using that not_less_Least unfolding k_def by blast
  from 1 2 3 show ?thesis by blast
qed

lemma same_first_stop:
  assumes "\<And>j. j < k \<Longrightarrow> pending status_at j" "\<not> pending status_at k"
    and "\<And>j. j < k' \<Longrightarrow> pending status_at j" "\<not> pending status_at k'"
  shows "k' = (k::nat)"
  using assms by (meson linorder_neqE_nat)


lemma run_cases:
  "(\<forall>j<n. pending status_at j) \<and>
     poll_loop status_at [0..<n] = (pending_rounds n, Exhausted) \<or>
   (\<exists>k<n. (\<forall>j<k. pending status_at j) \<and> \<not> pending status_at k \<and>
      poll_loop status_at [0..<n] =
        (pending_rounds k @ [GetStatus k], snd (poll_loop status_at [k])))"
proof (cases "\<forall>j<n. pending status_at j")
  case True
  then show ?thesis using poll_loop_exhausted [of n status_at] by simp
next
  case False
  then obtain k where k: "k < n" "\<forall>j<k. pending status_at j" "\<not> pending status_at k"
    using first_stop [of n status_at] by blast
  then have "poll_loop status_at [0..<n] =
        (pending_rounds k @ [GetStatus k], snd (poll_loop status_at [k]))"
    using poll_loop_first_stop [of k n status_at] by simp
  with k show ?thesis by blast
qed

lemma stop_not_exhausted:
  "\<not> pending status_at k \<Longrightarrow> snd (poll_loop status_at [k]) \<noteq> Exhausted"
  using not_pending_cases [of status_at k] stop_exit [of status_at k] by auto

lemma stop_break:
  "\<not> pending status_at k \<Longrightarrow>
   (snd (poll_loop status_at [k]) = Break) =
   (status_at k = Inr ''done'' \<or> status_at k = Inr ''completed'')"
  using not_pending_cases [of status_at k] by auto

lemma stop_raised:
  "\<not> pending status_at k \<Longrightarrow>
   (snd (poll_loop status_at [k]) = Raised e) =
   (status_at k = Inr ''failed'' \<and> e = Exception ''Search job failed'' \<or> status_at k = Inl e)"
  using not_pending_cases [of status_at k] by auto

lemma first_stop_unique:
  assumes "\<forall>j<k. pending status_at j" "\<not> pending status_at k"
    and "\<forall>j<k'. pending status_at j" "Q (status_at k')" "\<not> pending status_at k'"
  shows "Q (status_at k)"
proof -
  from assms have "k' = k" using same_first_stop [of k status_at k'] by blast
  with assms show ?thesis by simp
qed

lemma exit_count:
  "length (filter (\<lambda>e. \<exists>i. e = GetStatus i) (fst (poll_loop status_at [0..<n]))) \<le> n"
  using run_cases [of n status_at] by (auto simp add: count_status_rounds)

lemma exit_exhausted:
  "(snd (poll_loop status_at [0..<n]) = Exhausted) = (\<forall>j<n. pending status_at j)"
  using run_cases [of n status_at] stop_not_exhausted [of status_at] by auto

lemma exit_break:
  "(snd (poll_loop status_at [0..<n]) = Break) =
   (\<exists>k<n. (\<forall>j<k. pending status_at j) \<and>
      (status_at k = Inr ''done'' \<or> status_at k = Inr ''completed''))" (is "?L = ?R")
proof -
  consider (a) "\<forall>j<n. pending status_at j"
      "poll_loop status_at [0..<n] = (pending_rounds n, Exhausted)"
    | (b) k where "k < n" "\<forall>j<k. pending status_at j" "\<not> pending status_at k"
      "poll_loop status_at [0..<n] =
        (pending_rounds k @ [GetStatus k], snd (poll_loop status_at [k]))"
    using run_cases [of n status_at] by blast
  then show ?thesis
  proof cases
    case a
    have "\<not> ?R" using a(1) pending_not_terminal [of status_at] by blast
    with a(2) show ?thesis by simp
  next
    case b
    have "?R = (status_at k = Inr ''done'' \<or> status_at k = Inr ''completed'')"
    proof
      assume ?R
      then obtain k' where k': "\<forall>j<k'. pending status_at j"
        "status_at k' = Inr ''done'' \<or> status_at k' = Inr ''completed''" by blast
      then have "\<not> pending status_at k'" using pending_not_terminal [of status_at k'] by blast
      with b(2,3) k'
      show "status_at k = Inr ''done'' \<or> status_at k = Inr ''completed''"
        using first_stop_unique
          [of k status_at k' "\<lambda>s. s = Inr ''done'' \<or> s = Inr ''completed''"]
        by blast
    next
      assume "status_at k = Inr ''done'' \<or> status_at k = Inr ''completed''"
      with b(1,2) show ?R by blast
    qed
    with b(3,4) show ?thesis by (simp add: stop_break del: poll_loop.simps)
  qed
qed

lemma exit_raised:
  "(snd (poll_loop status_at [0..<n]) = Raised e) =
   (\<exists>k<n. (\<forall>j<k. pending status_at j) \<and>
      (status_at k = Inr ''failed'' \<and> e = Exception ''Search job failed'' \<or>
       status_at k = Inl e))" (is "?L = ?R")
proof -
  consider (a) "\<forall>j<n. pending status_at j"
      "poll_loop status_at [0..<n] = (pending_rounds n, Exhausted)"
    | (b) k where "k < n" "\<forall>j<k. pending status_at j" "\<not> pending status_at k"
      "poll_loop status_at [0..<n] =
        (pending_rounds k @ [GetStatus k], snd (poll_loop status_at [k]))"
    using run_cases [of n status_at] by blast
  then show ?thesis
  proof cases
    case a
    have "\<not> ?R" using a(1) pending_not_terminal [of status_at] by blast
    with a(2) show ?thesis by simp
  next
    case b
    have "?R = (status_at k = Inr ''failed'' \<and> e = Exception ''Search job failed'' \<or>
       status_at k = Inl e)"
    proof
      assume ?R
      then obtain k' where k': "\<forall>j<k'. pending status_at j"
        "status_at k' = Inr ''failed'' \<and> e = Exception ''Search job failed'' \<or>
         status_at k' = Inl e" by blast
      then have "\<not> pending status_at k'" using pending_not_terminal [of status_at k'] by blast
      with b(2,3) k'
      show "status_at k = Inr ''failed'' \<and> e = Exception ''Search job failed'' \<or>
         status_at k = Inl e"
        using first_stop_unique
          [of k status_at k' "\<lambda>s. s = Inr ''failed'' \<and> e = Exception ''Search job failed'' \<or>
             s = Inl e"]
        by blast
    next
      assume "status_at k = Inr ''failed'' \<and> e = Exception ''Search job failed'' \<or>
         status_at k = Inl e"
      with b(1,2) show ?R by blast
    qed
    with b(3,4) show ?thesis by (simp add: stop_raised del: poll_loop.simps)
  qed
qed

lemma run_stop:
  assumes "k < n" "\<forall>j<k. pending status_at j"
  shows "status_at k = Inr ''done'' \<or> status_at k = Inr ''completed'' \<Longrightarrow>
           poll_loop status_at [0..<n] = (pending_rounds k @ [GetStatus k], Break)"
    and "status_at k = Inr ''failed'' \<Longrightarrow>
           poll_loop status_at [0..<n] =
             (pending_rounds k @ [GetStatus k], Raised (Exception ''Search job failed''))"
    and "status_at k = Inl e \<Longrightarrow>
           poll_loop status_at [0..<n] = (pending_rounds k @ [GetStatus k], Raised e)"
proof -
  have r: "poll_loop status_at [0..<n] =
      (pending_rounds k @ [GetStatus k], snd (poll_loop status_at [k]))"
    if "\<not> pending status_at k"
    using poll_loop_first_stop [of k n status_at] assms that by simp
  show "poll_loop status_at [0..<n] = (pending_rounds k @ [GetStatus k], Break)"
    if "status_at k = Inr ''done'' \<or> status_at k = Inr ''completed''"
  proof -
    from that have np: "\<not> pending status_at k"
      using pending_not_terminal [of status_at k] by blast
    from that stop_exit(2,3) [of status_at k]
    have "snd (poll_loop status_at [k]) = Break" by blast
    with r [OF np] show ?thesis by simp
  qed
  show "poll_loop status_at [0..<n] =
      (pending_rounds k @ [GetStatus k], Raised (Exception ''Search job failed''))"
    if "status_at k = Inr ''failed''"
  proof -
    from that have np: "\<not> pending status_at k"
      using pending_not_terminal [of status_at k] by blast
    from that stop_exit(4) [of status_at k]
    have "snd (poll_loop status_at [k]) = Raised (Exception ''Search job failed'')" by blast
    with r [OF np] show ?thesis by simp
  qed
  show "poll_loop status_at [0..<n] = (pending_rounds k @ [GetStatus k], Raised e)"
    if "status_at k = Inl e"
  proof -
    from that have np: "\<not> pending status_at k"
      using pending_not_terminal [of status_at k e] by blast
    from that stop_exit(1) [of status_at k e]
    have "snd (poll_loop status_at [k]) = Raised e" by blast
    with r [OF np] show ?thesis by simp
  qed
qed

lemma fetch_after:
  "poll_loop status_at [0..<max_attempts] = (evs, Break) \<Longrightarrow>
     poll_and_fetch status_at = (evs @ [GetResults], None)"
  "poll_loop status_at [0..<max_attempts] = (evs, Exhausted) \<Longrightarrow>
     poll_and_fetch status_at = (evs @ [GetResults], None)"
  "poll_loop status_at [0..<max_attempts] = (evs, Raised e) \<Longrightarrow>
     poll_and_fetch status_at = (evs, Some e)"
  by (simp_all add: poll_and_fetch_def)

text \<open>
  C3, as amended. For every sequence of answers to the status requests, the loop issues
  at most 60 status requests, and a run is one of these. When all 60 statuses are
  pending, the events are 60 rounds of a status request followed by a sleep of 2, the
  loop runs out of attempts, and the script goes on to the results request with no
  error. When attempt \<open>k\<close> is the first whose status is not pending, the events are
  \<open>k\<close> such rounds and the status request of attempt \<open>k\<close>, so that a sleep of 2 stands
  between any two consecutive requests: the loop is left by \<open>break\<close> and the results are
  fetched when that status is \<open>done\<close> or \<open>completed\<close>; the script raises
  \<open>Search job failed\<close> and fetches nothing when it is \<open>failed\<close>; and the script ends
  with the exception of the request and fetches nothing when the request of attempt \<open>k\<close>
  itself raised. Every run is of one of these kinds, and the loop breaks, raises or runs
  out of attempts exactly in the cases named.
\<close>

theorem poll_loop_bounded:
  "length (filter (\<lambda>e. \<exists>i. e = GetStatus i) (fst (poll_loop status_at [0..<max_attempts]))) \<le> 60 \<and>
   ((\<forall>j<max_attempts. pending status_at j) \<longrightarrow>
      poll_loop status_at [0..<max_attempts] = (pending_rounds 60, Exhausted) \<and>
      poll_and_fetch status_at = (pending_rounds 60 @ [GetResults], None)) \<and>
   (k < max_attempts \<and> (\<forall>j<k. pending status_at j) \<and>
    (status_at k = Inr ''done'' \<or> status_at k = Inr ''completed'') \<longrightarrow>
      poll_loop status_at [0..<max_attempts] = (pending_rounds k @ [GetStatus k], Break) \<and>
      poll_and_fetch status_at = (pending_rounds k @ [GetStatus k, GetResults], None)) \<and>
   (k < max_attempts \<and> (\<forall>j<k. pending status_at j) \<and> status_at k = Inr ''failed'' \<longrightarrow>
      poll_loop status_at [0..<max_attempts] =
        (pending_rounds k @ [GetStatus k], Raised (Exception ''Search job failed'')) \<and>
      poll_and_fetch status_at =
        (pending_rounds k @ [GetStatus k], Some (Exception ''Search job failed''))) \<and>
   (k < max_attempts \<and> (\<forall>j<k. pending status_at j) \<and> status_at k = Inl e \<longrightarrow>
      poll_loop status_at [0..<max_attempts] = (pending_rounds k @ [GetStatus k], Raised e) \<and>
      poll_and_fetch status_at = (pending_rounds k @ [GetStatus k], Some e)) \<and>
   ((\<forall>j<max_attempts. pending status_at j) \<or>
    (\<exists>i<max_attempts. (\<forall>j<i. pending status_at j) \<and>
       (status_at i = Inr ''done'' \<or> status_at i = Inr ''completed'' \<or>
        status_at i = Inr ''failed'' \<or> (\<exists>x. status_at i = Inl x)))) \<and>
   ((snd (poll_loop status_at [0..<max_attempts]) = Break) =
      (\<exists>i<max_attempts. (\<forall>j<i. pending status_at j) \<and>
         (status_at i = Inr ''done'' \<or> status_at i = Inr ''completed''))) \<and>
   ((snd (poll_loop status_at [0..<max_attempts]) = Raised e) =
      (\<exists>i<max_attempts. (\<forall>j<i. pending status_at j) \<and>
         (status_at i = Inr ''failed'' \<and> e = Exception ''Search job failed'' \<or>
          status_at i = Inl e))) \<and>
   ((snd (poll_loop status_at [0..<max_attempts]) = Exhausted) =
      (\<forall>j<max_attempts. pending status_at j)) \<and>
   ((snd (poll_and_fetch status_at) = None) =
      (snd (poll_loop status_at [0..<max_attempts]) = Break \<or>
       snd (poll_loop status_at [0..<max_attempts]) = Exhausted))"
proof -
  let ?run = "poll_loop status_at [0..<max_attempts]"
  have c1: "length (filter (\<lambda>e. \<exists>i. e = GetStatus i) (fst ?run)) \<le> 60"
    using exit_count [where n = max_attempts and status_at = status_at]
    by (simp add: max_attempts_def)
  have c2: "?run = (pending_rounds 60, Exhausted) \<and>
      poll_and_fetch status_at = (pending_rounds 60 @ [GetResults], None)"
    if a: "\<forall>j<max_attempts. pending status_at j"
  proof -
    from a have "?run = (pending_rounds max_attempts, Exhausted)"
      using poll_loop_exhausted by blast
    then have "?run = (pending_rounds 60, Exhausted)" by (simp add: max_attempts_def)
    then show ?thesis using fetch_after(2) by simp
  qed
  have c3: "?run = (pending_rounds k @ [GetStatus k], Break) \<and>
      poll_and_fetch status_at = (pending_rounds k @ [GetStatus k, GetResults], None)"
    if a: "k < max_attempts \<and> (\<forall>j<k. pending status_at j) \<and>
      (status_at k = Inr ''done'' \<or> status_at k = Inr ''completed'')"
  proof -
    from a have "?run = (pending_rounds k @ [GetStatus k], Break)"
      using run_stop(1) [of k max_attempts status_at] by blast
    then show ?thesis using fetch_after(1) by simp
  qed
  have c4: "?run = (pending_rounds k @ [GetStatus k], Raised (Exception ''Search job failed'')) \<and>
      poll_and_fetch status_at =
        (pending_rounds k @ [GetStatus k], Some (Exception ''Search job failed''))"
    if a: "k < max_attempts \<and> (\<forall>j<k. pending status_at j) \<and> status_at k = Inr ''failed''"
  proof -
    from a have "?run =
        (pending_rounds k @ [GetStatus k], Raised (Exception ''Search job failed''))"
      using run_stop(2) [of k max_attempts status_at] by blast
    then show ?thesis using fetch_after(3) by simp
  qed
  have c5: "?run = (pending_rounds k @ [GetStatus k], Raised e) \<and>
      poll_and_fetch status_at = (pending_rounds k @ [GetStatus k], Some e)"
    if a: "k < max_attempts \<and> (\<forall>j<k. pending status_at j) \<and> status_at k = Inl e"
  proof -
    from a have "?run = (pending_rounds k @ [GetStatus k], Raised e)"
      using run_stop(3) [of k max_attempts status_at e] by blast
    then show ?thesis using fetch_after(3) by simp
  qed
  have c6: "(\<forall>j<max_attempts. pending status_at j) \<or>
    (\<exists>i<max_attempts. (\<forall>j<i. pending status_at j) \<and>
       (status_at i = Inr ''done'' \<or> status_at i = Inr ''completed'' \<or>
        status_at i = Inr ''failed'' \<or> (\<exists>x. status_at i = Inl x)))"
  proof (cases "\<forall>j<max_attempts. pending status_at j")
    case True
    then show ?thesis by blast
  next
    case False
    then obtain i where "i < max_attempts" "\<forall>j<i. pending status_at j" "\<not> pending status_at i"
      using first_stop [of max_attempts status_at] by blast
    with not_pending_cases [of status_at i] show ?thesis by blast
  qed
  note c7 = exit_break [where n = max_attempts and status_at = status_at]
  note c8 = exit_raised [where n = max_attempts and status_at = status_at and e = e]
  note c9 = exit_exhausted [where n = max_attempts and status_at = status_at]
  have c10: "(snd (poll_and_fetch status_at) = None) =
      (snd ?run = Break \<or> snd ?run = Exhausted)"
    by (cases ?run; cases "snd ?run") (simp_all add: poll_and_fetch_def)
  note d2 = impI [OF c2] and d3 = impI [OF c3] and d4 = impI [OF c4] and d5 = impI [OF c5]
  from c1 d2 d3 d4 d5 c6 c7 c8 c9 c10 show ?thesis
    by (intro conjI) assumption+
qed

text \<open>
  C3 as stated fails for a status request that raises: a response without a \<open>status\<close>
  member, or a request that fails after a pending status, ends the script with that
  exception, and no polled status is \<open>failed\<close>.
\<close>

theorem poll_without_status_counterexample:
  "snd (poll_loop (\<lambda>attempt. Inl (KeyError ''status'')) [0..<max_attempts]) =
     Raised (KeyError ''status'') \<and>
   poll_and_fetch (\<lambda>attempt. Inl (KeyError ''status'')) =
     ([GetStatus 0], Some (KeyError ''status'')) \<and>
   poll_and_fetch (\<lambda>attempt. if attempt = 0 then Inr ''running'' else Inl RequestException) =
     ([GetStatus 0, Sleep 2, GetStatus 1], Some RequestException)"
  by (simp add: poll_and_fetch_def max_attempts_def upt_conv_Cons [of 0 60]
        upt_conv_Cons [of "Suc 0" 60])


theorem poll_loop_bounded_witness:
  "poll_and_fetch (\<lambda>i. if i < 2 then Inr ''running'' else Inr ''done'') =
     ([GetStatus 0, Sleep 2, GetStatus 1, Sleep 2, GetStatus 2, GetResults], None) \<and>
   poll_and_fetch (\<lambda>i. if i < 5 then Inr ''queued'' else Inr ''failed'') =
     (pending_rounds 5 @ [GetStatus 5], Some (Exception ''Search job failed'')) \<and>
   poll_and_fetch (\<lambda>i. if i < 1 then Inr ''running'' else Inl (KeyError ''status'')) =
     ([GetStatus 0, Sleep 2, GetStatus 1], Some (KeyError ''status'')) \<and>
   poll_loop (\<lambda>i. Inr ''running'') [0..<max_attempts] = (pending_rounds 60, Exhausted) \<and>
   poll_and_fetch (\<lambda>i. Inr ''running'') = (pending_rounds 60 @ [GetResults], None)"
proof -
  let ?a = "\<lambda>i::nat. if i < 2 then Inr ''running'' else (Inr ''done'' :: exn + string)"
  let ?b = "\<lambda>i::nat. if i < 5 then Inr ''queued'' else (Inr ''failed'' :: exn + string)"
  let ?c = "\<lambda>i::nat. (Inr ''running'' :: exn + string)"
  let ?d = "\<lambda>i::nat. if i < 1 then Inr ''running'' else (Inl (KeyError ''status'') :: exn + string)"
  have a: "2 < max_attempts \<and> (\<forall>j<2. pending ?a j) \<and>
      (?a 2 = Inr ''done'' \<or> ?a 2 = Inr ''completed'')"
    by (simp add: max_attempts_def pending_def)
  have b: "5 < max_attempts \<and> (\<forall>j<5. pending ?b j) \<and> ?b 5 = Inr ''failed''"
    by (simp add: max_attempts_def pending_def)
  have c: "\<forall>j<max_attempts. pending ?c j"
    by (simp add: pending_def)
  have d: "1 < max_attempts \<and> (\<forall>j<1. pending ?d j) \<and> ?d 1 = Inl (KeyError ''status'')"
    by (simp add: max_attempts_def pending_def)
  have r2: "pending_rounds 2 = [GetStatus 0, Sleep 2, GetStatus 1, Sleep 2]"
    by (simp add: pending_rounds_def numeral_2_eq_2)
  have r1: "pending_rounds 1 = [GetStatus 0, Sleep 2]"
    by (simp add: pending_rounds_def)
  have 1: "poll_and_fetch ?a = (pending_rounds 2 @ [GetStatus 2, GetResults], None)"
    using poll_loop_bounded [where status_at = ?a and k = 2,
        THEN conjunct2, THEN conjunct2, THEN conjunct1, THEN mp, OF a]
    by (rule conjunct2)
  have 2: "poll_and_fetch ?b =
      (pending_rounds 5 @ [GetStatus 5], Some (Exception ''Search job failed''))"
    using poll_loop_bounded [where status_at = ?b and k = 5,
        THEN conjunct2, THEN conjunct2, THEN conjunct2, THEN conjunct1, THEN mp, OF b]
    by (rule conjunct2)
  have 3: "poll_and_fetch ?d = (pending_rounds 1 @ [GetStatus 1], Some (KeyError ''status''))"
    using poll_loop_bounded [where status_at = ?d and k = 1 and e = "KeyError ''status''",
        THEN conjunct2, THEN conjunct2, THEN conjunct2, THEN conjunct2, THEN conjunct1,
        THEN mp, OF d]
    by (rule conjunct2)
  note 4 = poll_loop_bounded [where status_at = ?c, THEN conjunct2, THEN conjunct1, THEN mp, OF c]
  from 1 2 3 4 show ?thesis
    unfolding r2 r1 by simp
qed

section \<open>Properties of the NDJSON parsing\<close>

lemma parse_lines_all_parse:
  "(\<And>l. l \<in> set ls \<Longrightarrow> \<not> blank l \<Longrightarrow> parses loads l) \<Longrightarrow>
   parse_lines loads ls acc =
     Inr (acc @ filter truthy (map (parsed_value loads) (filter (\<lambda>l. \<not> blank l) ls)))"
proof (induction ls arbitrary: acc)
  case Nil
  show ?case by simp
next
  case (Cons l ls)
  show ?case
  proof (cases "blank l")
    case True
    with Cons show ?thesis by (simp add: blank_def)
  next
    case False
    with Cons.prems have "parses loads l" by simp
    then obtain v where v: "loads l = Inr v"
      by (auto simp add: parses_def split: sum.splits)
    with False Cons show ?thesis
      by (simp add: blank_def parsed_value_def)
  qed
qed

lemma parse_lines_returns:
  "parse_lines loads ls acc = Inr rs \<Longrightarrow> l \<in> set ls \<Longrightarrow> \<not> blank l \<Longrightarrow> parses loads l"
proof (induction ls arbitrary: acc)
  case Nil
  then show ?case by simp
next
  case (Cons x ls)
  show ?case
  proof (cases "blank x")
    case True
    with Cons show ?thesis by (auto simp add: blank_def)
  next
    case False
    with Cons.prems(1) obtain v where v: "loads x = Inr v"
      by (cases "loads x") (auto simp add: blank_def)
    then have px: "parses loads x" by (simp add: parses_def)
    from Cons.prems(2) consider "l = x" | "l \<in> set ls" by auto
    then show ?thesis
    proof cases
      case 1
      with px show ?thesis by simp
    next
      case 2
      from Cons.prems(1) False v obtain acc' where "parse_lines loads ls acc' = Inr rs"
        by (cases "truthy v") (auto simp add: blank_def)
      with Cons.IH 2 Cons.prems(3) show ?thesis by blast
    qed
  qed
qed

lemma parse_ndjson_result:
  "(\<forall>l \<in> set (text_lines text). blank l \<or> parses loads l) \<Longrightarrow>
   parse_ndjson loads text =
     Inr (filter truthy (map (parsed_value loads) (filter (\<lambda>l. \<not> blank l) (text_lines text))))"
  unfolding parse_ndjson_def
  using parse_lines_all_parse [of "text_lines text" loads "[]"] by auto

lemma parse_ndjson_returns:
  "parse_ndjson loads text = Inr rs \<Longrightarrow> \<forall>l \<in> set (text_lines text). blank l \<or> parses loads l"
  unfolding parse_ndjson_def
  using parse_lines_returns [of loads "text_lines text" "[]" rs] by blast

text \<open>
  C4. When every line of the results text is blank or parses to a JSON object, the
  parsing returns exactly the objects of the lines that are not blank, without the empty
  objects \<open>{}\<close>, in the order of their lines: blank lines and lines that parse to \<open>{}\<close>
  contribute nothing.
\<close>

theorem parse_ndjson_objects:
  "(\<forall>l \<in> set (text_lines text). blank l \<or> (\<exists>kvs. loads l = Inr (JObj kvs))) \<longrightarrow>
   parse_ndjson loads text =
     Inr (filter (\<lambda>v. v \<noteq> JObj [])
            (map (parsed_value loads) (filter (\<lambda>l. \<not> blank l) (text_lines text))))"
proof
  assume a: "\<forall>l \<in> set (text_lines text). blank l \<or> (\<exists>kvs. loads l = Inr (JObj kvs))"
  then have "\<forall>l \<in> set (text_lines text). blank l \<or> parses loads l"
    by (auto simp add: parses_def)
  then have r: "parse_ndjson loads text =
     Inr (filter truthy (map (parsed_value loads) (filter (\<lambda>l. \<not> blank l) (text_lines text))))"
    by (rule parse_ndjson_result)
  have "filter truthy (map (parsed_value loads) ls) =
        filter (\<lambda>v. v \<noteq> JObj []) (map (parsed_value loads) ls)"
    if "\<forall>l \<in> set ls. \<exists>kvs. loads l = Inr (JObj kvs)" for ls
    using that by (induction ls) (auto simp add: parsed_value_def)
  moreover from a have "\<forall>l \<in> set (filter (\<lambda>l. \<not> blank l) (text_lines text)).
      \<exists>kvs. loads l = Inr (JObj kvs)" by auto
  ultimately show "parse_ndjson loads text =
     Inr (filter (\<lambda>v. v \<noteq> JObj [])
            (map (parsed_value loads) (filter (\<lambda>l. \<not> blank l) (text_lines text))))"
    using r by simp
qed

text \<open>
  C9. The parsing returns exactly when every line that is not blank parses, and what it
  returns are the truthy values of those lines, in order. Every line whose value is
  falsy is discarded: the result holds no \<open>null\<close>, \<open>false\<close>, \<open>0\<close>, \<open>0.0\<close>, empty
  string, empty array or empty object.
\<close>

theorem parse_ndjson_falsy_dropped:
  "((\<exists>rs. parse_ndjson loads text = Inr rs) =
      (\<forall>l \<in> set (text_lines text). blank l \<or> parses loads l)) \<and>
   (parse_ndjson loads text = Inr rs \<longrightarrow>
      rs = filter truthy (map (parsed_value loads) (filter (\<lambda>l. \<not> blank l) (text_lines text))) \<and>
      (\<forall>v \<in> set rs. truthy v) \<and>
      JNull \<notin> set rs \<and> JBool False \<notin> set rs \<and> JInt 0 \<notin> set rs \<and> JFloat 0 \<notin> set rs \<and>
      JStr [] \<notin> set rs \<and> JArr [] \<notin> set rs \<and> JObj [] \<notin> set rs)"
proof -
  have a: "(\<exists>rs. parse_ndjson loads text = Inr rs) =
      (\<forall>l \<in> set (text_lines text). blank l \<or> parses loads l)"
    using parse_ndjson_result [of "text" loads] parse_ndjson_returns [of loads "text"] by blast
  have b: "rs = filter truthy (map (parsed_value loads) (filter (\<lambda>l. \<not> blank l) (text_lines text)))"
    if "parse_ndjson loads text = Inr rs"
    using that parse_ndjson_result [of "text" loads] parse_ndjson_returns [of loads "text" rs] by simp
  have c: "\<forall>v \<in> set rs. truthy v" if "parse_ndjson loads text = Inr rs"
    using b [OF that] by simp
  have d: "JNull \<notin> set rs \<and> JBool False \<notin> set rs \<and> JInt 0 \<notin> set rs \<and> JFloat 0 \<notin> set rs \<and>
      JStr [] \<notin> set rs \<and> JArr [] \<notin> set rs \<and> JObj [] \<notin> set rs"
    if "parse_ndjson loads text = Inr rs"
    using c [OF that] by fastforce
  from a b c d show ?thesis by blast
qed


lemmas strip_eval = py_strip_def isspace_def whitespace_def

theorem parse_ndjson_objects_witness:
  \<open>parse_ndjson
     (\<lambda>l. if l = ''{"a":1}'' then Inr (JObj [(''a'', JInt 1)])
          else if l = ''{}'' then Inr (JObj [])
          else if l = ''{"a":2}'' then Inr (JObj [(''a'', JInt 2)])
          else Inl JSONDecodeError)
     ''{"a":1}\<newline>\<newline>{}\<newline>{"a":2}\<newline>'' =
   Inr [JObj [(''a'', JInt 1)], JObj [(''a'', JInt 2)]]\<close>
proof -
  let ?loads = \<open>\<lambda>l. if l = ''{"a":1}'' then Inr (JObj [(''a'', JInt 1)])
          else if l = ''{}'' then Inr (JObj [])
          else if l = ''{"a":2}'' then Inr (JObj [(''a'', JInt 2)])
          else (Inl JSONDecodeError :: exn + json)\<close>
  let ?text = \<open>''{"a":1}\<newline>\<newline>{}\<newline>{"a":2}\<newline>''\<close>
  have ls: \<open>text_lines ?text = [''{"a":1}'', [], ''{}'', ''{"a":2}'']\<close>
    by (simp add: text_lines_def strip_eval)
  have h: "\<forall>l \<in> set (text_lines ?text). blank l \<or> (\<exists>kvs. ?loads l = Inr (JObj kvs))"
    unfolding ls by (simp add: blank_def strip_eval)
  from parse_ndjson_objects [of ?text ?loads, THEN mp, OF h]
  show ?thesis
    unfolding ls by (simp add: blank_def strip_eval parsed_value_def)
qed

theorem parse_ndjson_falsy_dropped_witness:
  "parse_ndjson
     (\<lambda>l. if l = ''0'' then Inr (JInt 0)
          else if l = ''null'' then Inr JNull
          else if l = ''false'' then Inr (JBool False)
          else if l = ''[]'' then Inr (JArr [])
          else if l = ''7'' then Inr (JInt 7)
          else Inl JSONDecodeError)
     ''0\<newline>null\<newline>  \<newline>7\<newline>false\<newline>[]'' =
   Inr [JInt 7]"
proof -
  let ?loads = "\<lambda>l. if l = ''0'' then Inr (JInt 0)
          else if l = ''null'' then Inr JNull
          else if l = ''false'' then Inr (JBool False)
          else if l = ''[]'' then Inr (JArr [])
          else if l = ''7'' then Inr (JInt 7)
          else (Inl JSONDecodeError :: exn + json)"
  let ?text = "''0\<newline>null\<newline>  \<newline>7\<newline>false\<newline>[]''"
  have ls: "text_lines ?text = [''0'', ''null'', ''  '', ''7'', ''false'', ''[]'']"
    by (simp add: text_lines_def strip_eval)
  have h: "\<forall>l \<in> set (text_lines ?text). blank l \<or> parses ?loads l"
    unfolding ls by (simp add: blank_def strip_eval parses_def)
  from parse_ndjson_falsy_dropped [of ?loads ?text, THEN conjunct1, THEN iffD2, OF h]
  obtain rs where rs: "parse_ndjson ?loads ?text = Inr rs" by blast
  from parse_ndjson_falsy_dropped [of ?loads ?text rs, THEN conjunct2, THEN mp, OF rs, THEN conjunct1]
  have "rs = [JInt 7]"
    unfolding ls by (simp add: blank_def strip_eval parsed_value_def)
  with rs show ?thesis by simp
qed

section \<open>Properties of the table\<close>

lemma mask_select: "map fst (filter snd (zip xs (map f xs))) = filter f xs"
  by (induction xs) auto

lemma rows_dropna_all:
  "rows (dropna_all df) = filter (\<lambda>ir. \<exists>cell \<in> set (snd ir). \<not> isna cell) (rows df)"
  by (simp add: dropna_all_def mask_select list_ex_iff)

lemma columns_dropna_all: "columns (dropna_all df) = columns df"
  by (simp add: dropna_all_def)

lemma drop_cells:
  "map snd (filter (\<lambda>cv. fst cv \<notin> set cs) (zip cols (map f cols))) =
   map f (filter (\<lambda>c. c \<notin> set cs) cols)"
  by (induction cols) auto

lemma columns_DataFrame:
  "set (columns (DataFrame convert results)) = (\<Union>r \<in> set results. fst ` set r)"
  by (auto simp add: DataFrame_def Let_def)

lemma columns_build_table:
  "columns (build_table convert results) =
     filter (\<lambda>c. c \<notin> set columns_to_remove) (columns (DataFrame convert results))"
  by (simp add: build_table_def columns_dropna_all drop_columns_def)

lemma has_value_iff:
  "has_value r = (\<exists>k. k \<notin> set columns_to_remove \<and> \<not> missing (map_of r k))"
proof
  assume "has_value r"
  then show "\<exists>k. k \<notin> set columns_to_remove \<and> \<not> missing (map_of r k)"
    by (auto simp add: has_value_def list_ex_iff)
next
  assume "\<exists>k. k \<notin> set columns_to_remove \<and> \<not> missing (map_of r k)"
  then obtain k where k: "k \<notin> set columns_to_remove" "\<not> missing (map_of r k)" by blast
  then have "map_of r k \<noteq> None" by (cases "map_of r k") (simp_all add: missing_def)
  then have "k \<in> fst ` set r" by (simp add: map_of_eq_None_iff)
  with k show "has_value r" by (auto simp add: has_value_def list_ex_iff)
qed

lemma zip_upt_nth: "zip [0..<length xs] xs = map (\<lambda>i. (i, xs ! i)) [0..<length xs]"
proof (rule nth_equalityI)
  show "length (zip [0..<length xs] xs) = length (map (\<lambda>i. (i, xs ! i)) [0..<length xs])"
    by simp
next
  fix i assume "i < length (zip [0..<length xs] xs)"
  then show "zip [0..<length xs] xs ! i = map (\<lambda>i. (i, xs ! i)) [0..<length xs] ! i"
    by simp
qed

lemma labels_build_table:
  assumes H: "\<forall>c col v. isna (convert c col v) = missing v"
  shows "map fst (rows (build_table convert results)) =
           filter (\<lambda>i. has_value (results ! i)) [0..<length results]"
proof -
  let ?cols = "columns (DataFrame convert results)"
  let ?kept = "filter (\<lambda>c. c \<notin> set columns_to_remove) ?cols"
  let ?col = "\<lambda>c. map (\<lambda>r. map_of r c) results"
  let ?cells = "\<lambda>r cs. map (\<lambda>c. convert c (?col c) (map_of r c)) cs"
  let ?zs = "zip [0..<length results] results"
  have df: "rows (DataFrame convert results) = map (\<lambda>ir. (fst ir, ?cells (snd ir) ?cols)) ?zs"
    by (simp add: DataFrame_def Let_def)
  have "rows (drop_columns columns_to_remove (DataFrame convert results)) =
        map (\<lambda>ir. (fst ir, ?cells (snd ir) ?kept)) ?zs"
    unfolding drop_columns_def df by (simp add: drop_cells comp_def)
  then have "rows (build_table convert results) =
      filter (\<lambda>ir. \<exists>cell \<in> set (snd ir). \<not> isna cell)
        (map (\<lambda>ir. (fst ir, ?cells (snd ir) ?kept)) ?zs)"
    by (simp add: build_table_def rows_dropna_all)
  then have "map fst (rows (build_table convert results)) =
      map fst (filter (\<lambda>ir. \<exists>cell \<in> set (?cells (snd ir) ?kept). \<not> isna cell) ?zs)"
    by (simp add: filter_map comp_def)
  also have "filter (\<lambda>ir. \<exists>cell \<in> set (?cells (snd ir) ?kept). \<not> isna cell) ?zs =
      filter (\<lambda>ir. has_value (snd ir)) ?zs"
  proof (rule filter_cong [OF refl])
    fix ir assume "ir \<in> set ?zs"
    then have "snd ir \<in> set results"
      using set_zip_rightD [of "fst ir" "snd ir" "[0..<length results]" results] by simp
    then have sub: "fst ` set (snd ir) \<subseteq> set ?cols" by (auto simp add: columns_DataFrame)
    have "(\<exists>cell \<in> set (?cells (snd ir) ?kept). \<not> isna cell) =
          (\<exists>k \<in> set ?kept. \<not> missing (map_of (snd ir) k))"
      using H by auto
    also have "\<dots> = (\<exists>k. k \<notin> set columns_to_remove \<and> \<not> missing (map_of (snd ir) k))"
    proof
      assume "\<exists>k \<in> set ?kept. \<not> missing (map_of (snd ir) k)"
      then show "\<exists>k. k \<notin> set columns_to_remove \<and> \<not> missing (map_of (snd ir) k)" by auto
    next
      assume "\<exists>k. k \<notin> set columns_to_remove \<and> \<not> missing (map_of (snd ir) k)"
      then obtain k where k: "k \<notin> set columns_to_remove" "\<not> missing (map_of (snd ir) k)"
        by blast
      then have "map_of (snd ir) k \<noteq> None"
        by (cases "map_of (snd ir) k") (simp_all add: missing_def)
      then have "k \<in> fst ` set (snd ir)" by (simp add: map_of_eq_None_iff)
      with sub k show "\<exists>k \<in> set ?kept. \<not> missing (map_of (snd ir) k)" by auto
    qed
    finally show "(\<exists>cell \<in> set (?cells (snd ir) ?kept). \<not> isna cell) = has_value (snd ir)"
      by (simp add: has_value_iff)
  qed
  also have "map fst (filter (\<lambda>ir. has_value (snd ir)) ?zs) =
      filter (\<lambda>i. has_value (results ! i)) [0..<length results]"
    unfolding zip_upt_nth by (simp add: filter_map comp_def)
  finally show ?thesis .
qed

lemma isna_values:
  "isna JNull" "isna (JFloat 0x7FF8000000000000)" "isna (JFloat 0xFFF8000000000000)"
  "\<not> isna (JStr [])" "\<not> isna (JInt 0)" "\<not> isna (JBool False)" "\<not> isna (JFloat 0)"
  "\<not> isna (JFloat 0x7FF0000000000000)" "\<not> isna (JFloat 0x3FF0000000000000)"
  "\<not> isna (JArr [])" "\<not> isna (JObj [])"
  by (simp_all add: isna_def)


text \<open>
  C5, as amended. Whenever the cells pandas stores are missing exactly for the values
  that are missing in the records (no such key, \<open>null\<close> or \<open>NaN\<close>), the table keeps, in
  order and under their index labels, exactly the rows of the records that have a value
  that is not missing under a column that is not removed: a row whose every remaining
  field is missing is dropped, and a row with at least one remaining field that is not
  missing is kept. An empty string, \<open>0\<close> and \<open>false\<close> are values, not missing ones. The
  columns are the keys of the records, in order of first occurrence, without the removed
  ones.
\<close>

theorem build_table_rows:
  "((\<forall>c col v. isna (convert c col v) = missing v) \<longrightarrow>
      map fst (rows (build_table convert results)) =
        filter (\<lambda>i. has_value (results ! i)) [0..<length results] \<and>
      (i < length results \<and>
       (\<forall>k. k \<notin> set columns_to_remove \<longrightarrow> missing (map_of (results ! i) k)) \<longrightarrow>
         i \<notin> fst ` set (rows (build_table convert results))) \<and>
      (i < length results \<and> k \<notin> set columns_to_remove \<and>
       \<not> missing (map_of (results ! i) k) \<longrightarrow>
         i \<in> fst ` set (rows (build_table convert results)))) \<and>
   columns (build_table convert results) =
     filter (\<lambda>c. c \<notin> set columns_to_remove) (columns (DataFrame convert results)) \<and>
   missing None \<and> missing (Some JNull) \<and> missing (Some (JFloat 0x7FF8000000000000)) \<and>
   \<not> missing (Some (JStr [])) \<and> \<not> missing (Some (JInt 0)) \<and>
   \<not> missing (Some (JBool False)) \<and> \<not> missing (Some (JFloat 0))"
proof -
  have a: "map fst (rows (build_table convert results)) =
        filter (\<lambda>i. has_value (results ! i)) [0..<length results] \<and>
      (i < length results \<and>
       (\<forall>k. k \<notin> set columns_to_remove \<longrightarrow> missing (map_of (results ! i) k)) \<longrightarrow>
         i \<notin> fst ` set (rows (build_table convert results))) \<and>
      (i < length results \<and> k \<notin> set columns_to_remove \<and>
       \<not> missing (map_of (results ! i) k) \<longrightarrow>
         i \<in> fst ` set (rows (build_table convert results)))"
    if H: "\<forall>c col v. isna (convert c col v) = missing v"
  proof -
    note l = labels_build_table [OF H, of results]
    have s: "fst ` set (rows (build_table convert results)) =
        {i. i < length results \<and> has_value (results ! i)}"
    proof -
      have "fst ` set (rows (build_table convert results)) =
          set (map fst (rows (build_table convert results)))" by simp
      also have "\<dots> = {i. i < length results \<and> has_value (results ! i)}"
        unfolding l by auto
      finally show ?thesis .
    qed
    have 2: "i \<notin> fst ` set (rows (build_table convert results))"
      if "i < length results \<and>
        (\<forall>k. k \<notin> set columns_to_remove \<longrightarrow> missing (map_of (results ! i) k))"
      using that unfolding s has_value_iff by blast
    have 3: "i \<in> fst ` set (rows (build_table convert results))"
      if "i < length results \<and> k \<notin> set columns_to_remove \<and>
        \<not> missing (map_of (results ! i) k)"
      using that unfolding s has_value_iff by blast
    from l impI [OF 2] impI [OF 3] show ?thesis by (intro conjI) assumption+
  qed
  have b: "missing None" "missing (Some JNull)" "missing (Some (JFloat 0x7FF8000000000000))"
    "\<not> missing (Some (JStr []))" "\<not> missing (Some (JInt 0))"
    "\<not> missing (Some (JBool False))" "\<not> missing (Some (JFloat 0))"
    by (simp_all add: missing_def isna_values)
  from impI [OF a] columns_build_table [of convert results] b show ?thesis
    by (intro conjI) assumption+
qed

lemma object_cells_keep_missing: "\<forall>c col v. isna (object_cells c col v) = missing v"
proof (intro allI)
  fix c :: string and col :: "json option list" and v
  show "isna (object_cells c col v) = missing v"
    by (cases v) (simp_all add: object_cells_def missing_def isna_values)
qed

theorem build_table_rows_witness:
  "map fst (rows (build_table object_cells
     [[(''a'', JInt 1)],
      [(''a'', JNull), (''job'', JStr ''x'')],
      [(''b'', JFloat 0x7FF8000000000000)],
      [(''b'', JStr [])],
      [(''c'', JFloat 0x3FF0000000000000), (''a'', JNull)],
      []])) = [0, 3, 4]"
proof -
  let ?rs = "[[(''a'', JInt 1)],
      [(''a'', JNull), (''job'', JStr ''x'')],
      [(''b'', JFloat 0x7FF8000000000000)],
      [(''b'', JStr [])],
      [(''c'', JFloat 0x3FF0000000000000), (''a'', JNull)],
      []]"
  have n: "[0..<length ?rs] =
      [0, Suc 0, Suc (Suc 0), Suc (Suc (Suc 0)), Suc (Suc (Suc (Suc 0))),
       Suc (Suc (Suc (Suc (Suc 0))))]"
    by simp
  from build_table_rows [where convert = object_cells and results = ?rs,
      THEN conjunct1, THEN mp, OF object_cells_keep_missing, THEN conjunct1]
  show ?thesis
    unfolding n
    by (simp add: has_value_def missing_def isna_values isna_def columns_to_remove_def)
qed

text \<open>
  C5 as stated fails for the empty string: a row whose every field is the empty string
  is kept.
\<close>

theorem empty_string_row_counterexample:
  "map fst (rows (build_table object_cells [[(''a'', JStr []), (''b'', JStr [])]])) = [0] \<and>
   rows (build_table object_cells [[(''a'', JStr []), (''b'', JStr [])]]) =
     [(0, [JStr [], JStr []])]"
  by (simp add: build_table_def dropna_all_def drop_columns_def DataFrame_def object_cells_def
        columns_to_remove_def isna_def)

end
